theory Spec2Isabelle
  imports Main "HOL-Library.Multiset"
begin

section \<open>Python string primitives\<close>

text \<open>
  A Python \<open>str\<close> is modelled as a \<open>string\<close>: the list of the bytes of its UTF-8
  encoding. The scripts look for ASCII characters (\<open>|\<close>, \<open>-\<close>, \<open>:\<close>, newline) and for
  the arrow U+2192, which is the three bytes E2 86 92; an ASCII byte or the encoding of
  a character occurs in the encoding of a text exactly where the character occurs in the
  text.

  \<open>whitespace\<close> lists the encodings of the characters for which \<open>str.isspace\<close> holds,
  which are the characters that \<open>str.strip\<close>, \<open>str.split\<close> and the \<open>\s\<close> of \<open>re\<close> take
  for whitespace: U+0009..U+000D, U+001C..U+001F, U+0020, U+0085, U+00A0, U+1680,
  U+2000..U+200A, U+2028, U+2029, U+202F, U+205F and U+3000.
\<close>

definition whitespace :: "string list" where
  "whitespace =
     [[CHR 0x09], [CHR 0x0A], [CHR 0x0B],
      [CHR 0x0C], [CHR 0x0D], [CHR 0x1C],
      [CHR 0x1D], [CHR 0x1E], [CHR 0x1F],
      [CHR 0x20], [CHR 0xC2, CHR 0x85], [CHR 0xC2, CHR 0xA0],
      [CHR 0xE1, CHR 0x9A, CHR 0x80], [CHR 0xE2, CHR 0x80, CHR 0x80], [CHR 0xE2, CHR 0x80, CHR 0x81],
      [CHR 0xE2, CHR 0x80, CHR 0x82], [CHR 0xE2, CHR 0x80, CHR 0x83], [CHR 0xE2, CHR 0x80, CHR 0x84],
      [CHR 0xE2, CHR 0x80, CHR 0x85], [CHR 0xE2, CHR 0x80, CHR 0x86], [CHR 0xE2, CHR 0x80, CHR 0x87],
      [CHR 0xE2, CHR 0x80, CHR 0x88], [CHR 0xE2, CHR 0x80, CHR 0x89], [CHR 0xE2, CHR 0x80, CHR 0x8A],
      [CHR 0xE2, CHR 0x80, CHR 0xA8], [CHR 0xE2, CHR 0x80, CHR 0xA9], [CHR 0xE2, CHR 0x80, CHR 0xAF],
      [CHR 0xE2, CHR 0x81, CHR 0x9F], [CHR 0xE3, CHR 0x80, CHR 0x80]]"

text \<open>\<open>s.startswith(p)\<close> and \<open>s.endswith(p)\<close>\<close>

definition startswith :: "string \<Rightarrow> string \<Rightarrow> bool" where
  "startswith s p = (take (length p) s = p)"

definition endswith :: "string \<Rightarrow> string \<Rightarrow> bool" where
  "endswith s p = (length p \<le> length s \<and> drop (length s - length p) s = p)"

text \<open>
  What is left of \<open>s\<close> once the characters of \<open>ws\<close> at its start are removed. A character
  of \<open>ws\<close> is a whole encoded character, so in the encoding of a text it can only start
  where a character starts.
\<close>

fun drop_leading :: "string list \<Rightarrow> string \<Rightarrow> string" where
  "drop_leading ws [] = []"
| "drop_leading ws (c # cs) =
     (case find (startswith (c # cs)) ws of
        None \<Rightarrow> c # cs
      | Some w \<Rightarrow> drop_leading ws (drop (length w - 1) cs))"

text \<open>\<open>s.lstrip()\<close>, \<open>s.rstrip()\<close> and \<open>s.strip()\<close>\<close>

definition lstrip :: "string \<Rightarrow> string" where
  "lstrip s = drop_leading whitespace s"

definition rstrip :: "string \<Rightarrow> string" where
  "rstrip s = rev (drop_leading (map rev whitespace) (rev s))"

definition strip :: "string \<Rightarrow> string" where
  "strip s = lstrip (rstrip s)"

text \<open>\<open>s.split()\<close>: the maximal runs of characters that are not whitespace.\<close>

fun split_ws :: "string \<Rightarrow> string \<Rightarrow> string list" where
  "split_ws word [] = (if word = [] then [] else [word])"
| "split_ws word (c # cs) =
     (case find (startswith (c # cs)) whitespace of
        None \<Rightarrow> split_ws (word @ [c]) cs
      | Some w \<Rightarrow>
          (if word = [] then split_ws [] (drop (length w - 1) cs)
           else word # split_ws [] (drop (length w - 1) cs)))"

text \<open>
  The first character of a text, decoded, with the number of bytes of its encoding;
  \<open>None\<close> when the bytes do not start with the encoding of a character.
\<close>

definition continuation :: "char \<Rightarrow> bool" where
  "continuation c = (0x80 \<le> (of_char c :: nat) \<and> (of_char c :: nat) < 0xC0)"

definition low_bits :: "char \<Rightarrow> nat" where
  "low_bits c = of_char c mod 64"

definition decode_char :: "string \<Rightarrow> (nat \<times> nat) option" where
  "decode_char s =
     (case s of
        [] \<Rightarrow> None
      | c # cs \<Rightarrow>
          let b = of_char c :: nat in
          if b < 0x80 then Some (b, 1)
          else if 0xC0 \<le> b \<and> b < 0xE0 then
            (if 1 \<le> length cs \<and> continuation (cs ! 0)
             then Some ((b - 0xC0) * 64 + low_bits (cs ! 0), 2) else None)
          else if 0xE0 \<le> b \<and> b < 0xF0 then
            (if 2 \<le> length cs \<and> continuation (cs ! 0) \<and> continuation (cs ! 1)
             then Some (((b - 0xE0) * 64 + low_bits (cs ! 0)) * 64 + low_bits (cs ! 1), 3)
             else None)
          else if 0xF0 \<le> b \<and> b < 0xF8 then
            (if 3 \<le> length cs \<and> continuation (cs ! 0) \<and> continuation (cs ! 1)
                  \<and> continuation (cs ! 2)
             then Some ((((b - 0xF0) * 64 + low_bits (cs ! 0)) * 64 + low_bits (cs ! 1)) * 64
                        + low_bits (cs ! 2), 4)
             else None)
          else None)"

text \<open>
  The characters of the Unicode category Nd come in runs of ten, from the digit zero to
  the digit nine; \<open>decimal_zeros\<close> lists the zeros (Unicode 14.0, the version of
  Python 3.11). \<open>decimal c\<close> is the value of the decimal digit \<open>c\<close>: \<open>str.isdecimal\<close>,
  the \<open>\d\<close> of \<open>re\<close> and \<open>int\<close> accept exactly these characters as digits.
\<close>

definition decimal_zeros :: "nat list" where
  "decimal_zeros =
     [0x0030, 0x0660, 0x06F0, 0x07C0, 0x0966, 0x09E6, 0x0A66, 0x0AE6,
      0x0B66, 0x0BE6, 0x0C66, 0x0CE6, 0x0D66, 0x0DE6, 0x0E50, 0x0ED0,
      0x0F20, 0x1040, 0x1090, 0x17E0, 0x1810, 0x1946, 0x19D0, 0x1A80,
      0x1A90, 0x1B50, 0x1BB0, 0x1C40, 0x1C50, 0xA620, 0xA8D0, 0xA900,
      0xA9D0, 0xA9F0, 0xAA50, 0xABF0, 0xFF10, 0x104A0, 0x10D30, 0x11066,
      0x110F0, 0x11136, 0x111D0, 0x112F0, 0x11450, 0x114D0, 0x11650, 0x116C0,
      0x11730, 0x118E0, 0x11950, 0x11C50, 0x11D50, 0x11DA0, 0x16A60, 0x16AC0,
      0x16B50, 0x1D7CE, 0x1D7D8, 0x1D7E2, 0x1D7EC, 0x1D7F6, 0x1E140, 0x1E2F0,
      0x1E950, 0x1FBF0]"

definition decimal :: "nat \<Rightarrow> nat option" where
  "decimal c = map_option (\<lambda>z. c - z) (find (\<lambda>z. z \<le> c \<and> c < z + 10) decimal_zeros)"

text \<open>\<open>s.rstrip(chars)\<close>\<close>

definition rstrip_chars :: "string \<Rightarrow> string \<Rightarrow> string" where
  "rstrip_chars s chars = rev (dropWhile (\<lambda>c. c \<in> set chars) (rev s))"

text \<open>\<open>sub in s\<close>\<close>

fun contains :: "string \<Rightarrow> string \<Rightarrow> bool" where
  "contains [] sub = (sub = [])"
| "contains (c # cs) sub = (startswith (c # cs) sub \<or> contains cs sub)"

text \<open>\<open>s.split(d)\<close> for a separator \<open>d\<close> of one character\<close>

fun split_char :: "char \<Rightarrow> string \<Rightarrow> string list" where
  "split_char d [] = [[]]"
| "split_char d (c # cs) =
     (if c = d then [] # split_char d cs
      else (c # hd (split_char d cs)) # tl (split_char d cs))"

text \<open>\<open>sep.join(xs)\<close>\<close>

fun join :: "string \<Rightarrow> string list \<Rightarrow> string" where
  "join sep [] = []"
| "join sep [x] = x"
| "join sep (x # y # ys) = x @ sep @ join sep (y # ys)"

text \<open>\<open>xs.pop(i)\<close> (the list that remains) and \<open>xs.insert(i, x)\<close>, for \<open>i \<ge> 0\<close>\<close>

definition list_pop :: "'a list \<Rightarrow> nat \<Rightarrow> 'a list" where
  "list_pop xs i = take i xs @ drop (Suc i) xs"

definition list_insert :: "'a list \<Rightarrow> nat \<Rightarrow> 'a \<Rightarrow> 'a list" where
  "list_insert xs i x = take i xs @ x # drop i xs"

section \<open>reverse\_table.py\<close>

text \<open>The test of line 88: the row looks like a separator row.\<close>

definition is_separator_like :: "string \<Rightarrow> bool" where
  "is_separator_like line =
     (contains line ''---'' \<or> contains line '':-:'' \<or> contains line '':--'' \<or> contains line ''--:'')"

text \<open>The \<open>for i, line in enumerate(all_rows)\<close> loop of lines 86-90, counting from \<open>i\<close>.\<close>

fun find_separator_idx :: "nat \<Rightarrow> string list \<Rightarrow> nat option" where
  "find_separator_idx i [] = None"
| "find_separator_idx i (line # rest) =
     (if is_separator_like line then Some i else find_separator_idx (Suc i) rest)"

definition reverse_process_table :: "string list \<Rightarrow> bool \<Rightarrow> string list" where
  "reverse_process_table table_lines keep_header =
     (if length table_lines \<le> 1 then table_lines
      else if keep_header then
        (if length table_lines \<le> 2 then table_lines
         else
           let header = table_lines ! 0;
               separator = table_lines ! 1;
               data_rows = rev (drop 2 table_lines)
           in [header, separator] @ data_rows)
      else
        (if length table_lines \<le> 2 then rev table_lines
         else
           let all_rows = rev table_lines in
           (case find_separator_idx 0 all_rows of
              None \<Rightarrow> all_rows
            | Some separator_idx \<Rightarrow>
                if separator_idx \<noteq> 1
                then list_insert (list_pop all_rows separator_idx) 1 (all_rows ! separator_idx)
                else all_rows)))"

text \<open>
  The \<open>while i < len(lines)\<close> loop of \<open>reverse_markdown_table\<close>, on the lines that
  remain, with the loop's variables \<open>in_table\<close>, \<open>table_lines\<close> and \<open>result\<close>;
  the empty list is the code after the loop (lines 47-51).
\<close>

fun reverse_scan :: "bool \<Rightarrow> string list \<Rightarrow> bool \<Rightarrow> string list \<Rightarrow> string list \<Rightarrow> string list" where
  "reverse_scan keep_header [] in_table table_lines result =
     (if in_table \<and> table_lines \<noteq> []
      then result @ reverse_process_table table_lines keep_header
      else result)"
| "reverse_scan keep_header (line # rest) in_table table_lines result =
     (if CHR ''|'' \<in> set line \<and> strip line \<noteq> [] then
        (if \<not> in_table then reverse_scan keep_header rest True [line] result
         else reverse_scan keep_header rest in_table (table_lines @ [line]) result)
      else
        (if in_table
         then reverse_scan keep_header rest False []
                ((result @ reverse_process_table table_lines keep_header) @ [line])
         else reverse_scan keep_header rest in_table table_lines (result @ [line])))"

definition reverse_markdown_table :: "string \<Rightarrow> bool \<Rightarrow> string" where
  "reverse_markdown_table content keep_header =
     join ''\<newline>'' (reverse_scan keep_header (split_char CHR ''\<newline>'' content) False [] [])"

text \<open>The test of line 31 of \<open>reverse_markdown_table\<close>, named for the proofs.\<close>

definition table_line :: "string \<Rightarrow> bool" where
  "table_line line = (CHR ''|'' \<in> set line \<and> strip line \<noteq> [])"

section \<open>reorder\_columns.py\<close>

text \<open>
  The \<open>ValueError\<close>s of the script, by the place that raises them, with the values that
  their messages print: the mismatch of line 88 (\<open>len(columns)\<close>, \<open>len(order)\<close>), the
  \<open>IndexError\<close> converted at line 72, the check of line 133, the \<open>ValueError\<close> of \<open>int\<close>
  on a token that it refuses (line 131, with the token), and the wrapping of line 140.
\<close>

datatype error =
    Column_count_mismatch nat nat
  | Invalid_column_index
  | Not_a_permutation
  | Int_refused string
  | Invalid_column_order_format error

text \<open>\<open>str(n)\<close> for \<open>n \<ge> 0\<close>\<close>

definition digit_char :: "nat \<Rightarrow> char" where
  "digit_char d = ''0123456789'' ! d"

function str_nat :: "nat \<Rightarrow> string" where
  "str_nat n = (if n < 10 then [digit_char n] else str_nat (n div 10) @ [digit_char (n mod 10)])"
  by pat_completeness auto
termination
  by (relation "measure id") auto

declare str_nat.simps [simp del]

text \<open>
  \<open>str(e)\<close>. The message of the \<open>ValueError\<close> that \<open>int(x)\<close> raises is written by the
  interpreter (from \<open>repr(x)\<close>, or from the number of digits of \<open>x\<close>): it is the
  parameter \<open>int_message\<close>, a function of \<open>x\<close>.
\<close>

fun str_error :: "(string \<Rightarrow> string) \<Rightarrow> error \<Rightarrow> string" where
  "str_error int_message (Column_count_mismatch columns order) =
     ''Column count mismatch: table has '' @ str_nat columns @
     '' columns, but order specifies '' @ str_nat order @ '' columns''"
| "str_error int_message Invalid_column_index =
     ''Invalid column index in order: list index out of range''"
| "str_error int_message Not_a_permutation =
     ''Column order must be a permutation of column indices starting from 0''"
| "str_error int_message (Int_refused x) = int_message x"
| "str_error int_message (Invalid_column_order_format e) =
     ''Invalid column order format: '' @ str_error int_message e"

text \<open>The loop of lines 22-25, at index \<open>i\<close>, on the lines from \<open>i\<close> on.\<close>

fun frontmatter_scan :: "string list \<Rightarrow> string list \<Rightarrow> nat \<Rightarrow> string list \<Rightarrow> string list \<times> string list" where
  "frontmatter_scan lines frontmatter i [] = ([], lines)"
| "frontmatter_scan lines frontmatter i (line # rest) =
     (if startswith (strip line) ''---''
      then (frontmatter @ [line], drop (i + 1) lines)
      else frontmatter_scan lines (frontmatter @ [line]) (i + 1) rest)"

definition parse_frontmatter :: "string list \<Rightarrow> string list \<times> string list" where
  "parse_frontmatter lines =
     (if lines = [] \<or> \<not> startswith (strip (lines ! 0)) ''---'' then ([], lines)
      else frontmatter_scan lines [lines ! 0] 1 (drop 1 lines))"

text \<open>\<open>None, None\<close> is \<open>None\<close>; otherwise the pair \<open>parts, original\<close>.\<close>

definition parse_table_row :: "string \<Rightarrow> (string list \<times> string) option" where
  "parse_table_row line =
     (let original = rstrip_chars line [CHR 0x0A, CHR 0x0D] in
      if CHR ''|'' \<notin> set original then None
      else
        let stripped = strip original in
        if \<not> startswith stripped ''|'' \<or> \<not> endswith stripped ''|'' then None
        else
          let parts = split_char CHR ''|'' original;
              parts1 = (if parts \<noteq> [] \<and> strip (parts ! 0) = [] then drop 1 parts else parts);
              parts2 = (if parts1 \<noteq> [] \<and> strip (last parts1) = [] then butlast parts1 else parts1)
          in if parts2 = [] then None else Some (parts2, original))"

definition format_table_row :: "string list \<Rightarrow> string \<Rightarrow> string" where
  "format_table_row columns original_line = ''|'' @ join ''|'' columns @ ''|''"

text \<open>\<open>xs[i]\<close>: a negative index counts from the end; \<open>None\<close> is \<open>IndexError\<close>.\<close>

definition py_index :: "'a list \<Rightarrow> int \<Rightarrow> 'a option" where
  "py_index xs i =
     (if 0 \<le> i \<and> i < int (length xs) then Some (xs ! nat i)
      else if i < 0 \<and> - int (length xs) \<le> i then Some (xs ! nat (int (length xs) + i))
      else None)"

definition reorder_columns :: "string list \<Rightarrow> int list \<Rightarrow> error + string list" where
  "reorder_columns columns order =
     (case those (map (py_index columns) order) of
        Some reordered \<Rightarrow> Inr reordered
      | None \<Rightarrow> Inl Invalid_column_index)"

text \<open>The loop of lines 81-94 of \<open>process_table\<close>, with its variable \<open>result\<close>.\<close>

fun reorder_rows :: "string list \<Rightarrow> int list \<Rightarrow> string list \<Rightarrow> error + string list" where
  "reorder_rows [] order result = Inr result"
| "reorder_rows (line # rest) order result =
     (case parse_table_row line of
        None \<Rightarrow> reorder_rows rest order (result @ [line])
      | Some (columns, original) \<Rightarrow>
          if length columns \<noteq> length order
          then Inl (Column_count_mismatch (length columns) (length order))
          else
            (case reorder_columns columns order of
               Inl e \<Rightarrow> Inl e
             | Inr reordered \<Rightarrow>
                 reorder_rows rest order
                   (result @ [format_table_row reordered original @ ''\<newline>''])))"

definition reorder_process_table :: "string list \<Rightarrow> int list \<Rightarrow> error + string list" where
  "reorder_process_table table_lines order =
     (if table_lines = [] then Inr table_lines else reorder_rows table_lines order [])"

definition is_row :: "string \<Rightarrow> bool" where
  "is_row line = (parse_table_row line \<noteq> None)"

text \<open>
  The outer loop of \<open>find_and_process_tables\<close> on the lines from \<open>i\<close> on. The inner loop
  (lines 114-119) takes the longest run of lines that \<open>parse_table_row\<close> accepts.
\<close>

function find_tables :: "string list \<Rightarrow> int list \<Rightarrow> string list \<Rightarrow> error + string list" where
  "find_tables [] order result = Inr result"
| "find_tables (line # rest) order result =
     (if \<not> is_row line then find_tables rest order (result @ [line])
      else
        (case reorder_process_table (takeWhile is_row (line # rest)) order of
           Inl e \<Rightarrow> Inl e
         | Inr processed_table \<Rightarrow>
             find_tables (dropWhile is_row (line # rest)) order (result @ processed_table)))"
  by pat_completeness auto
termination
proof (relation "measure (\<lambda>(lines, order, result). length lines)")
  show "wf (measure (\<lambda>(lines, order, result). length lines))" by simp
next
  fix line :: string and rest :: "string list" and order :: "int list" and result :: "string list"
  show "((rest, order, result @ [line]), (line # rest, order, result))
          \<in> measure (\<lambda>(lines, order, result). length lines)" by simp
next
  fix line :: string and rest :: "string list" and order :: "int list"
    and result x2 :: "string list"
  assume "\<not> \<not> is_row line"
  then have "length (dropWhile is_row (line # rest)) \<le> length rest"
    by (simp add: length_dropWhile_le)
  then show "((dropWhile is_row (line # rest), order, result @ x2), (line # rest, order, result))
          \<in> measure (\<lambda>(lines, order, result). length lines)" by simp
qed

definition find_and_process_tables :: "string list \<Rightarrow> int list \<Rightarrow> error + string list" where
  "find_and_process_tables lines order = find_tables lines order []"

text \<open>
  \<open>int(x)\<close> for a \<open>str\<close> (base 10), as CPython computes it; \<open>None\<close> is \<open>ValueError\<close>.
  First every character that is not ASCII becomes a blank if it is whitespace and the
  ASCII digit of its value if it is a decimal digit; any other character that is not
  ASCII is refused. \<open>int_ascii\<close> gives the resulting ASCII codes.
\<close>

fun int_ascii :: "string \<Rightarrow> nat list option" where
  "int_ascii [] = Some []"
| "int_ascii (c # cs) =
     (case decode_char (c # cs) of
        None \<Rightarrow> None
      | Some (ch, n) \<Rightarrow>
          (case (if ch < 127 then Some ch
                 else if take n (c # cs) \<in> set whitespace then Some 0x20
                 else map_option (\<lambda>d. 0x30 + d) (decimal ch)) of
             None \<Rightarrow> None
           | Some a \<Rightarrow> map_option ((#) a) (int_ascii (drop (n - 1) cs))))"

text \<open>
  Then the ASCII text is read: whitespace (tab, newline, vertical tab, form feed,
  carriage return, blank) at both ends, an optional sign, and digits with single
  underscores between them, \<open>digit (["_"] digit)*\<close>.
\<close>

definition ascii_space :: "nat \<Rightarrow> bool" where
  "ascii_space a = (a \<in> set [0x09, 0x0A, 0x0B, 0x0C, 0x0D, 0x20])"

definition ascii_digit :: "nat \<Rightarrow> bool" where
  "ascii_digit a = (0x30 \<le> a \<and> a \<le> 0x39)"

fun digits_ok :: "nat list \<Rightarrow> bool" where
  "digits_ok [] = False"
| "digits_ok [c] = ascii_digit c"
| "digits_ok (c # d # r) =
     (ascii_digit c \<and> (if d = 0x5F then digits_ok r else digits_ok (d # r)))"

definition digits_value :: "nat list \<Rightarrow> nat" where
  "digits_value s = foldl (\<lambda>v a. 10 * v + (a - 0x30)) 0 (filter (\<lambda>a. a \<noteq> 0x5F) s)"

text \<open>
  A text of more digits than \<open>sys.get_int_max_str_digits()\<close> is refused; the script
  leaves the limit at its default.
\<close>

definition int_max_str_digits :: nat where
  "int_max_str_digits = 4300"

definition py_int :: "string \<Rightarrow> int option" where
  "py_int x =
     (case int_ascii x of
        None \<Rightarrow> None
      | Some a \<Rightarrow>
          let t = rev (dropWhile ascii_space (rev (dropWhile ascii_space a)));
              negative = (t \<noteq> [] \<and> hd t = 0x2D);
              body = (if t \<noteq> [] \<and> (hd t = 0x2D \<or> hd t = 0x2B) then tl t else t)
          in if digits_ok body \<and> length (filter (\<lambda>a. a \<noteq> 0x5F) body) \<le> int_max_str_digits
             then Some (if negative then - int (digits_value body) else int (digits_value body))
             else None)"

text \<open>The comprehension of line 131: the first token that \<open>int\<close> refuses raises.\<close>

fun parse_ints :: "string list \<Rightarrow> error + int list" where
  "parse_ints [] = Inr []"
| "parse_ints (x # xs) =
     (case py_int x of
        None \<Rightarrow> Inl (Int_refused x)
      | Some i \<Rightarrow> (case parse_ints xs of Inl e \<Rightarrow> Inl e | Inr is \<Rightarrow> Inr (i # is)))"

text \<open>\<open>order_str.replace(',', ' ').split()\<close>\<close>

definition order_tokens :: "string \<Rightarrow> string list" where
  "order_tokens order_str =
     split_ws [] (map (\<lambda>c. if c = CHR '','' then CHR '' '' else c) order_str)"

definition parse_column_order :: "string \<Rightarrow> error + int list" where
  "parse_column_order order_str =
     (case parse_ints (order_tokens order_str) of
        Inl e \<Rightarrow> Inl (Invalid_column_order_format e)
      | Inr order \<Rightarrow>
          if sort order \<noteq> map int [0..<length order]
          then Inl (Invalid_column_order_format Not_a_permutation)
          else Inr order)"

text \<open>
  The command line after \<open>argparse\<close>, what reading \<open>args.file\<close> gives, and what the
  run leaves: the exit code, the lines printed to the two streams, and the file written
  (its path and the lines given to \<open>writelines\<close>).
\<close>

record args =
  arg_file :: string
  arg_order :: string
  arg_output :: "string option"
  arg_dry_run :: bool

datatype read_result = File_not_found | Read_failed string | Read_ok "string list"

record run_result =
  exit_code :: nat
  stdout :: "string list"
  stderr :: "string list"
  written :: "(string \<times> string list) option"

text \<open>
  \<open>main\<close>. \<open>file_read\<close> is the outcome of lines 183-184 and \<open>write_failure\<close> the message
  of the exception that lines 207-208 raise, if they do; what is then left of the
  output file is not modelled. \<open>int_message\<close> is as in \<open>str_error\<close>.
\<close>

definition reorder_main ::
  "(string \<Rightarrow> string) \<Rightarrow> args \<Rightarrow> read_result \<Rightarrow> string option \<Rightarrow> run_result" where
  "reorder_main int_message a file_read write_failure =
     (case parse_column_order (arg_order a) of
        Inl e \<Rightarrow>
          \<lparr>exit_code = 1, stdout = [], stderr = [''Error: '' @ str_error int_message e], written = None\<rparr>
      | Inr order_list \<Rightarrow>
          (case file_read of
             File_not_found \<Rightarrow>
               \<lparr>exit_code = 1, stdout = [],
                stderr = [''Error: File '' @ [CHR 0x27] @ arg_file a @ [CHR 0x27] @ '' not found''],
                written = None\<rparr>
           | Read_failed e \<Rightarrow>
               \<lparr>exit_code = 1, stdout = [], stderr = [''Error reading file: '' @ e],
                written = None\<rparr>
           | Read_ok lines \<Rightarrow>
               (case parse_frontmatter lines of (frontmatter, content) \<Rightarrow>
                  (case find_and_process_tables content order_list of
                     Inl e \<Rightarrow>
                       \<lparr>exit_code = 1, stdout = [],
                        stderr = [''Error processing table: '' @ str_error int_message e], written = None\<rparr>
                   | Inr processed_content \<Rightarrow>
                       let result = frontmatter @ processed_content in
                       if arg_dry_run a
                       then \<lparr>exit_code = 0, stdout = [concat result], stderr = [],
                             written = None\<rparr>
                       else
                         let output_file =
                               (case arg_output a of
                                  Some out \<Rightarrow> if out \<noteq> [] then out else arg_file a
                                | None \<Rightarrow> arg_file a)
                         in (case write_failure of
                               Some e \<Rightarrow>
                                 \<lparr>exit_code = 1, stdout = [],
                                  stderr = [''Error writing file: '' @ e], written = None\<rparr>
                             | None \<Rightarrow>
                                 \<lparr>exit_code = 0,
                                  stdout = [''Successfully reordered columns in '' @ output_file],
                                  stderr = [], written = Some (output_file, result)\<rparr>)))))"

section \<open>split\_by\_year.py\<close>

subsection \<open>\<open>datetime.strptime(s, "%B %d, %Y")\<close>\<close>















subsection \<open>The script\<close>

















section \<open>Facts about the string primitives\<close>

lemma mem_drop_leading:
  "x \<in> set s \<Longrightarrow> (\<And>w. w \<in> set ws \<Longrightarrow> x \<notin> set w \<and> w \<noteq> []) \<Longrightarrow> x \<in> set (drop_leading ws s)"
proof (induction ws s rule: drop_leading.induct)
  case (1 ws)
  then show ?case by simp
next
  case (2 ws c cs)
  show ?case
  proof (cases "find (startswith (c # cs)) ws")
    case None
    then show ?thesis using "2.prems"(1) by simp
  next
    case (Some w)
    then have w: "w \<in> set ws" and sw: "take (length w) (c # cs) = w"
      by (auto simp: find_Some_iff startswith_def)
    have nx: "x \<notin> set w" and ne: "w \<noteq> []" using "2.prems"(2) [OF w] by auto
    have "set (c # cs) = set (take (length w) (c # cs)) \<union> set (drop (length w) (c # cs))"
      by (metis append_take_drop_id set_append)
    then have "x \<in> set (drop (length w) (c # cs))" using "2.prems"(1) nx sw by auto
    moreover have "drop (length w) (c # cs) = drop (length w - 1) cs"
      using ne by (cases w) auto
    ultimately have "x \<in> set (drop (length w - 1) cs)" by simp
    then have "x \<in> set (drop_leading ws (drop (length w - 1) cs))"
      using "2.IH" [OF Some] "2.prems"(2) by blast
    then show ?thesis using Some by simp
  qed
qed

lemma pipe_not_space: "w \<in> set whitespace \<Longrightarrow> CHR ''|'' \<notin> set w \<and> w \<noteq> []"
  by (auto simp: whitespace_def)

lemma strip_nonempty: "CHR ''|'' \<in> set s \<Longrightarrow> strip s \<noteq> []"
proof -
  assume a: "CHR ''|'' \<in> set s"
  have r: "\<And>w. w \<in> set (map rev whitespace) \<Longrightarrow> CHR ''|'' \<notin> set w \<and> w \<noteq> []"
    using pipe_not_space by auto
  have "CHR ''|'' \<in> set (drop_leading (map rev whitespace) (rev s))"
    using a by (intro mem_drop_leading r) auto
  then have "CHR ''|'' \<in> set (rstrip s)" by (simp add: rstrip_def)
  then have "CHR ''|'' \<in> set (strip s)"
    unfolding strip_def lstrip_def by (intro mem_drop_leading pipe_not_space)
  then show ?thesis by auto
qed

lemma table_line_iff: "table_line line = (CHR ''|'' \<in> set line)"
  using strip_nonempty by (auto simp: table_line_def)

lemma split_char_nonempty: "split_char d s \<noteq> []"
  by (induction s) auto

lemma join_cons_char: "join sep ((c # h) # t) = c # join sep (h # t)"
  by (cases t) auto

lemma join_split_char: "join [d] (split_char d s) = s"
proof (induction s)
  case Nil show ?case by simp
next
  case (Cons c cs)
  obtain y ys where sp: "split_char d cs = y # ys"
    using split_char_nonempty by (cases "split_char d cs") auto
  show ?case using Cons sp by (auto simp: join_cons_char)
qed

lemma split_char_no_sep: "l \<in> set (split_char d s) \<Longrightarrow> d \<notin> set l"
proof (induction s arbitrary: l)
  case Nil then show ?case by simp
next
  case (Cons c cs)
  obtain y ys where sp: "split_char d cs = y # ys"
    using split_char_nonempty by (cases "split_char d cs") auto
  show ?case using Cons sp by (auto split: if_splits)
qed

lemma split_char_append: "d \<notin> set x \<Longrightarrow>
  split_char d (x @ rest) = (x @ hd (split_char d rest)) # tl (split_char d rest)"
  using split_char_nonempty [of d rest] by (induction x) auto

lemma split_char_plain: "d \<notin> set x \<Longrightarrow> split_char d x = [x]"
  by (induction x) auto

lemma split_join_char:
  "ls \<noteq> [] \<Longrightarrow> \<forall>l \<in> set ls. d \<notin> set l \<Longrightarrow> split_char d (join [d] ls) = ls"
proof (induction "[d]" ls rule: join.induct)
  case 1 then show ?case by simp
next
  case (2 x) then show ?case by (simp add: split_char_plain)
next
  case (3 x y ys)
  then show ?case by (simp add: split_char_append)
qed

lemma startswith_iff: "startswith s p \<longleftrightarrow> (\<exists>q. s = p @ q)"
  unfolding startswith_def
  by (metis append_eq_conv_conj append_take_drop_id)

lemma contains_iff: "contains s sub \<longleftrightarrow> (\<exists>p q. s = p @ sub @ q)"
proof (induction s)
  case Nil then show ?case by simp
next
  case (Cons c cs)
  show ?case
  proof
    assume "contains (c # cs) sub"
    then consider "startswith (c # cs) sub" | "contains cs sub" by auto
    then show "\<exists>p q. c # cs = p @ sub @ q"
    proof cases
      case 1
      then obtain q where "c # cs = sub @ q" using startswith_iff by blast
      then have "c # cs = [] @ sub @ q" by simp
      then show ?thesis by blast
    next
      case 2
      then obtain p q where "cs = p @ sub @ q" using Cons by blast
      then have "c # cs = (c # p) @ sub @ q" by simp
      then show ?thesis by blast
    qed
  next
    assume "\<exists>p q. c # cs = p @ sub @ q"
    then obtain p q where pq: "c # cs = p @ sub @ q" by blast
    show "contains (c # cs) sub"
    proof (cases p)
      case Nil
      then have "startswith (c # cs) sub" using pq startswith_iff by auto
      then show ?thesis by simp
    next
      case (Cons a p')
      then have "cs = p' @ sub @ q" using pq by simp
      then show ?thesis using Cons.IH by auto
    qed
  qed
qed

section \<open>Row reversal (reverse\_table.py)\<close>

lemma nth_nth_drop2: "2 \<le> length xs \<Longrightarrow> xs ! 0 # xs ! 1 # drop 2 xs = xs"
  by (cases xs; cases "tl xs") auto

lemma keep_header_eq:
  "reverse_process_table t True = (if length t \<le> 2 then t else [t ! 0, t ! 1] @ rev (drop 2 t))"
  by (simp add: reverse_process_table_def Let_def)

lemma keep_header_length: "length (reverse_process_table t True) = length t"
  by (auto simp: keep_header_eq)

lemma keep_header_mset: "mset (reverse_process_table t True) = mset t"
proof (cases "length t \<le> 2")
  case True then show ?thesis by (simp add: keep_header_eq)
next
  case False
  then obtain a b r where "t = a # b # r" by (cases t; cases "tl t") auto
  then show ?thesis by (simp add: keep_header_eq)
qed

lemma keep_header_involution:
  "reverse_process_table (reverse_process_table t True) True = t"
proof (cases "length t \<le> 2")
  case True then show ?thesis by (simp add: keep_header_eq)
next
  case False
  then show ?thesis using nth_nth_drop2 [of t] by (simp add: keep_header_eq)
qed

lemma scan_result:
  "reverse_scan k ls it tbl res = res @ reverse_scan k ls it tbl []"
proof (induction ls arbitrary: it tbl res)
  case Nil show ?case by simp
next
  case (Cons l ls)
  show ?case
  proof (cases "CHR ''|'' \<in> set l \<and> strip l \<noteq> []")
    case True
    then show ?thesis
      using Cons [of True "[l]" res] Cons [of True "tbl @ [l]" res] by (cases it) simp_all
  next
    case False
    then show ?thesis
      using Cons [of False "[]" "(res @ reverse_process_table tbl k) @ [l]"]
        Cons [of False "[]" "reverse_process_table tbl k @ [l]"]
        Cons [of False tbl "res @ [l]"] Cons [of False tbl "[l]"]
      by (cases it) auto
  qed
qed

lemma scan_outside_tl: "reverse_scan k ls False tbl res = reverse_scan k ls False [] res"
  by (induction ls arbitrary: res) auto

lemma scan_mset:
  "mset (reverse_scan True ls it tbl res) = mset res + (if it then mset tbl else {#}) + mset ls"
  by (induction ls arbitrary: it tbl res) (auto simp: keep_header_mset)

lemma scan_step_table:
  "table_line l \<Longrightarrow>
   reverse_scan k (l # rest) it tbl res =
     (if it then reverse_scan k rest True (tbl @ [l]) res
      else reverse_scan k rest True [l] res)"
  by (auto simp: table_line_def)

lemma scan_step_plain:
  "\<not> table_line l \<Longrightarrow>
   reverse_scan k (l # rest) it tbl res =
     (if it then reverse_scan k rest False [] ((res @ reverse_process_table tbl k) @ [l])
      else reverse_scan k rest False tbl (res @ [l]))"
  by (auto simp: table_line_def)

lemma scan_plain:
  "\<not> table_line l \<Longrightarrow>
   reverse_scan k (l # rest) False [] [] = l # reverse_scan k rest False [] []"
  using scan_result [of k rest False "[]" "[l]"]
  by (simp add: scan_step_plain del: reverse_scan.simps)

lemma scan_run:
  "\<forall>t \<in> set ts. table_line t \<Longrightarrow>
   reverse_scan k (ts @ rest) True tbl res = reverse_scan k rest True (tbl @ ts) res"
  by (induction ts arbitrary: tbl) (simp_all add: scan_step_table del: reverse_scan.simps)

lemma scan_block:
  assumes "ts \<noteq> []" and "\<forall>t \<in> set ts. table_line t"
    and "rest = [] \<or> \<not> table_line (hd rest)"
  shows "reverse_scan k (ts @ rest) False [] [] =
         reverse_process_table ts k @ reverse_scan k rest False [] []"
proof -
  obtain t ts' where ts: "ts = t # ts'" using assms(1) by (cases ts) auto
  have t: "table_line t" and ts': "\<forall>t \<in> set ts'. table_line t" using assms(2) ts by auto
  have "reverse_scan k (ts @ rest) False [] [] = reverse_scan k (ts' @ rest) True [t] []"
    using t by (simp add: ts scan_step_table del: reverse_scan.simps)
  also have "\<dots> = reverse_scan k rest True ts []"
    using scan_run [OF ts'] by (simp add: ts)
  also have "\<dots> = reverse_process_table ts k @ reverse_scan k rest False [] []"
  proof (cases rest)
    case Nil then show ?thesis using assms(1) by simp
  next
    case (Cons r rest')
    then have "\<not> table_line r" using assms(3) by simp
    then show ?thesis
      using scan_result [of k rest' False "[]" "reverse_process_table ts k @ [r]"]
        scan_result [of k rest' False "[]" "[r]"]
      by (simp add: Cons scan_step_plain del: reverse_scan.simps)
  qed
  finally show ?thesis .
qed

lemma scan_involution:
  "reverse_scan True (reverse_scan True ls False [] []) False [] [] = ls"
proof (induction "length ls" arbitrary: ls rule: less_induct)
  case less
  show ?case
  proof (cases ls)
    case Nil then show ?thesis by simp
  next
    case (Cons l rest)
    show ?thesis
    proof (cases "table_line l")
      case False
      then show ?thesis using less [of rest]
        by (simp add: Cons scan_plain del: reverse_scan.simps)
    next
      case True
      define ts where "ts = takeWhile table_line ls"
      define rs where "rs = dropWhile table_line ls"
      have ls: "ls = ts @ rs" by (simp add: ts_def rs_def)
      have ts_ne: "ts \<noteq> []" using True by (simp add: ts_def Cons)
      have ts_all: "\<forall>t \<in> set ts. table_line t"
        by (auto simp: ts_def dest: set_takeWhileD)
      have rs_hd: "rs = [] \<or> \<not> table_line (hd rs)"
        unfolding rs_def by (metis hd_dropWhile)
      have shorter: "length rs < length ls" using ts_ne by (simp add: ls)
      let ?ts' = "reverse_process_table ts True"
      let ?rs' = "reverse_scan True rs False [] []"
      have out: "reverse_scan True ls False [] [] = ?ts' @ ?rs'"
        using scan_block [OF ts_ne ts_all rs_hd] by (simp add: ls)
      have "mset ?ts' = mset ts" by (rule keep_header_mset)
      then have set_eq: "set ?ts' = set ts" by (rule mset_eq_setD)
      have ts'_ne: "?ts' \<noteq> []" using ts_ne keep_header_length [of ts] by auto
      have ts'_all: "\<forall>t \<in> set ?ts'. table_line t" using ts_all set_eq by simp
      have rs'_hd: "?rs' = [] \<or> \<not> table_line (hd ?rs')"
      proof (cases rs)
        case Nil then show ?thesis by simp
      next
        case (Cons r rs2)
        then have "\<not> table_line r" using rs_hd by simp
        then show ?thesis by (simp add: Cons scan_plain del: reverse_scan.simps)
      qed
      have "reverse_scan True (?ts' @ ?rs') False [] [] =
            reverse_process_table ?ts' True @ reverse_scan True ?rs' False [] []"
        by (rule scan_block [OF ts'_ne ts'_all rs'_hd])
      also have "\<dots> = ts @ rs"
        using less [OF shorter] by (simp add: keep_header_involution)
      also have "\<dots> = ls" by (simp add: ls)
      finally show ?thesis unfolding out .
    qed
  qed
qed

lemma scan_lines_ok:
  assumes "ls \<noteq> []" and "\<forall>l \<in> set ls. d \<notin> set l"
  shows "reverse_scan True ls False [] [] \<noteq> [] \<and>
         (\<forall>l \<in> set (reverse_scan True ls False [] []). d \<notin> set l)"
proof -
  have m: "mset (reverse_scan True ls False [] []) = mset ls" by (simp add: scan_mset)
  then have "set (reverse_scan True ls False [] []) = set ls" by (rule mset_eq_setD)
  moreover have "reverse_scan True ls False [] [] \<noteq> []" using m assms(1) by auto
  ultimately show ?thesis using assms(2) by simp
qed

text \<open>
  Claim C10. Keep-header reversal is an involution on whole documents: applying
  \<open>reverse_markdown_table\<close> with \<open>keep_header = True\<close> twice gives back the input string.
\<close>

theorem reverse_markdown_table_keep_header_involution:
  "reverse_markdown_table (reverse_markdown_table content True) True = content"
proof -
  let ?ls = "split_char CHR ''\<newline>'' content"
  let ?out = "reverse_scan True ?ls False [] []"
  have "?ls \<noteq> []" by (rule split_char_nonempty)
  moreover have "\<forall>l \<in> set ?ls. CHR ''\<newline>'' \<notin> set l" using split_char_no_sep by blast
  ultimately have ok: "?out \<noteq> [] \<and> (\<forall>l \<in> set ?out. CHR ''\<newline>'' \<notin> set l)"
    by (rule scan_lines_ok)
  have "split_char CHR ''\<newline>'' (join ''\<newline>'' ?out) = ?out"
    using ok by (simp add: split_join_char)
  then show ?thesis
    by (simp add: reverse_markdown_table_def scan_involution join_split_char)
qed

theorem reverse_markdown_table_keep_header_involution_witness:
  "reverse_markdown_table
     (reverse_markdown_table ''intro\<newline>| h |\<newline>| - |\<newline>| a |\<newline>| b |\<newline>'' True) True =
   ''intro\<newline>| h |\<newline>| - |\<newline>| a |\<newline>| b |\<newline>''"
  by (rule reverse_markdown_table_keep_header_involution)


lemma find_separator_idx_None:
  "find_separator_idx n rows = None \<longleftrightarrow> (\<forall>r \<in> set rows. \<not> is_separator_like r)"
  by (induction rows arbitrary: n) auto

lemma find_separator_idx_first:
  "i < length rows \<Longrightarrow> is_separator_like (rows ! i) \<Longrightarrow>
   \<forall>j < i. \<not> is_separator_like (rows ! j) \<Longrightarrow>
   find_separator_idx n rows = Some (n + i)"
proof (induction rows arbitrary: n i)
  case Nil then show ?case by simp
next
  case (Cons r rows)
  show ?case
  proof (cases i)
    case 0 then show ?thesis using Cons.prems by simp
  next
    case (Suc k)
    have "\<not> is_separator_like r" using Cons.prems(3) Suc by auto
    moreover have "find_separator_idx (Suc n) rows = Some (Suc n + k)"
    proof (rule Cons.IH)
      show "k < length rows" using Cons.prems(1) Suc by simp
      show "is_separator_like (rows ! k)" using Cons.prems(2) Suc by simp
      show "\<forall>j<k. \<not> is_separator_like (rows ! j)"
      proof (intro allI impI)
        fix j assume "j < k"
        then have "Suc j < i" using Suc by simp
        then have "\<not> is_separator_like ((r # rows) ! Suc j)" using Cons.prems(3) by blast
        then show "\<not> is_separator_like (rows ! j)" by simp
      qed
    qed
    ultimately show ?thesis using Suc by simp
  qed
qed

text \<open>
  Claim C2. Keep-header reversal returns a block of at most two rows unchanged; a longer
  block becomes row 0, row 1, then rows 2 to the end in reversed order. For every block
  of at least two rows the first two rows of the result are the first two rows of the
  input.
\<close>

theorem keep_header_reversal:
  "(length t \<le> 2 \<longrightarrow> reverse_process_table t True = t) \<and>
   (2 < length t \<longrightarrow> reverse_process_table t True = [t ! 0, t ! 1] @ rev (drop 2 t)) \<and>
   (2 \<le> length t \<longrightarrow> take 2 (reverse_process_table t True) = take 2 t)"
proof (intro conjI impI)
  assume "length t \<le> 2"
  then show "reverse_process_table t True = t" by (simp add: keep_header_eq)
next
  assume "2 < length t"
  then show "reverse_process_table t True = [t ! 0, t ! 1] @ rev (drop 2 t)"
    by (simp add: keep_header_eq)
next
  assume "2 \<le> length t"
  then obtain a b r where "t = a # b # r" by (cases t; cases "tl t") auto
  then show "take 2 (reverse_process_table t True) = take 2 t"
    by (simp add: keep_header_eq)
qed

theorem keep_header_reversal_witness:
  "reverse_process_table
     [''| Name | date |'', ''| --- | --- |'', ''| a | 1 |'', ''| b | 2 |'', ''| c | 3 |''] True =
     [''| Name | date |'', ''| --- | --- |'', ''| c | 3 |'', ''| b | 2 |'', ''| a | 1 |''] \<and>
   take 2 (reverse_process_table
     [''| Name | date |'', ''| --- | --- |'', ''| a | 1 |'', ''| b | 2 |'', ''| c | 3 |''] True) =
     [''| Name | date |'', ''| --- | --- |'']"
  using keep_header_reversal
    [of "[''| Name | date |'', ''| --- | --- |'', ''| a | 1 |'', ''| b | 2 |'', ''| c | 3 |'']"]
  by simp

text \<open>
  Claim C3. No-header reversal of a block of more than two rows reverses the block and
  then moves the first row that contains \<open>---\<close>, \<open>:-:\<close>, \<open>:--\<close> or \<open>--:\<close>, when its
  index \<open>i\<close> is not 1, to index 1 (the row is popped and inserted again); without such a
  row the block is just reversed. The block header, separator, row1, row2 in which only
  the separator contains such a substring becomes row2, separator, row1, header. A block
  of at most two rows is reversed and nothing is moved.
\<close>

theorem no_header_reversal:
  "(length t \<le> 2 \<longrightarrow> reverse_process_table t False = rev t) \<and>
   (2 < length t \<and> (\<forall>r \<in> set t. \<not> is_separator_like r) \<longrightarrow>
      reverse_process_table t False = rev t) \<and>
   (2 < length t \<and> i < length t \<and> is_separator_like (rev t ! i) \<and>
    (\<forall>j < i. \<not> is_separator_like (rev t ! j)) \<longrightarrow>
      reverse_process_table t False =
        (if i \<noteq> 1 then list_insert (list_pop (rev t) i) 1 (rev t ! i) else rev t)) \<and>
   (is_separator_like separator \<and> \<not> is_separator_like header \<and>
    \<not> is_separator_like row1 \<and> \<not> is_separator_like row2 \<longrightarrow>
      reverse_process_table [header, separator, row1, row2] False =
        [row2, separator, row1, header])"
proof (intro conjI impI)
  assume "length t \<le> 2"
  then show "reverse_process_table t False = rev t"
    by (cases t; cases "tl t") (auto simp: reverse_process_table_def)
next
  assume a: "2 < length t \<and> (\<forall>r \<in> set t. \<not> is_separator_like r)"
  then have "find_separator_idx 0 (rev t) = None" by (simp add: find_separator_idx_None)
  then show "reverse_process_table t False = rev t"
    using a by (simp add: reverse_process_table_def)
next
  assume a: "2 < length t \<and> i < length t \<and> is_separator_like (rev t ! i) \<and>
    (\<forall>j < i. \<not> is_separator_like (rev t ! j))"
  then have "find_separator_idx 0 (rev t) = Some (0 + i)"
    by (intro find_separator_idx_first) auto
  then show "reverse_process_table t False =
        (if i \<noteq> 1 then list_insert (list_pop (rev t) i) 1 (rev t ! i) else rev t)"
    using a by (simp add: reverse_process_table_def Let_def)
next
  assume "is_separator_like separator \<and> \<not> is_separator_like header \<and>
    \<not> is_separator_like row1 \<and> \<not> is_separator_like row2"
  then show "reverse_process_table [header, separator, row1, row2] False =
        [row2, separator, row1, header]"
    by (simp add: reverse_process_table_def list_insert_def list_pop_def)
qed

lemma sep_eval:
  "is_separator_like ''| --- | --- |''" "\<not> is_separator_like ''| Name | date |''"
  "\<not> is_separator_like ''| a | 1 |''" "\<not> is_separator_like ''| b | 2 |''"
  by (simp_all add: is_separator_like_def startswith_def)

theorem no_header_reversal_witness:
  "reverse_process_table
     [''| Name | date |'', ''| --- | --- |'', ''| a | 1 |'', ''| b | 2 |''] False =
     [''| b | 2 |'', ''| --- | --- |'', ''| a | 1 |'', ''| Name | date |'']"
  using no_header_reversal
    [of "[''| Name | date |'', ''| --- | --- |'', ''| a | 1 |'', ''| b | 2 |'']" 2
        "''| --- | --- |''" "''| Name | date |''" "''| a | 1 |''" "''| b | 2 |''"]
  by (simp add: is_separator_like_def startswith_def list_insert_def list_pop_def)

section \<open>Column reorder (reorder\_columns.py)\<close>

lemma frontmatter_scan_unclosed:
  "\<forall>l \<in> set rest. \<not> startswith (strip l) ''---'' \<Longrightarrow>
   frontmatter_scan lines frontmatter i rest = ([], lines)"
  by (induction rest arbitrary: frontmatter i) auto

lemma frontmatter_scan_closed:
  "\<exists>l \<in> set rest. startswith (strip l) ''---'' \<Longrightarrow>
   fst (frontmatter_scan lines frontmatter i rest) \<noteq> []"
  by (induction rest arbitrary: frontmatter i) auto

text \<open>
  Claim C5, as the code has it. The extractor returns \<open>([], lines)\<close> exactly when the list
  is empty, or the first line, stripped, does not start with \<open>---\<close>, or no later line,
  stripped, starts with \<open>---\<close>. The claim asks for a first line that is exactly \<open>---\<close>;
  the code tests \<open>startswith\<close>, for the opening line and for the closing one. In the
  third document of the witness the first line starts with the no-break space U+00A0,
  which \<open>strip\<close> removes.
\<close>

theorem parse_frontmatter_absent:
  "parse_frontmatter lines = ([], lines) \<longleftrightarrow>
     lines = [] \<or> \<not> startswith (strip (lines ! 0)) ''---'' \<or>
     (\<forall>l \<in> set (drop 1 lines). \<not> startswith (strip l) ''---'')"
proof (cases "lines = [] \<or> \<not> startswith (strip (lines ! 0)) ''---''")
  case True
  then show ?thesis by (auto simp: parse_frontmatter_def)
next
  case False
  then have pf: "parse_frontmatter lines = frontmatter_scan lines [lines ! 0] 1 (drop 1 lines)"
    by (auto simp: parse_frontmatter_def)
  show ?thesis
  proof (cases "\<forall>l \<in> set (drop 1 lines). \<not> startswith (strip l) ''---''")
    case True
    then show ?thesis using pf frontmatter_scan_unclosed by simp
  next
    case closed: False
    then have "fst (parse_frontmatter lines) \<noteq> []"
      using pf frontmatter_scan_closed [of "drop 1 lines" lines "[lines ! 0]" 1] by simp
    then show ?thesis using False closed by auto
  qed
qed

theorem parse_frontmatter_absent_witness:
  "parse_frontmatter [''# Title\<newline>'', ''---\<newline>'', ''text\<newline>''] =
     ([], [''# Title\<newline>'', ''---\<newline>'', ''text\<newline>'']) \<and>
   parse_frontmatter [''---\<newline>'', ''title: x\<newline>'', ''text\<newline>''] =
     ([], [''---\<newline>'', ''title: x\<newline>'', ''text\<newline>'']) \<and>
   parse_frontmatter [[CHR 0xC2, CHR 0xA0] @ ''---\<newline>'', ''a\<newline>'', ''---\<newline>'', ''b\<newline>''] \<noteq>
     ([], [[CHR 0xC2, CHR 0xA0] @ ''---\<newline>'', ''a\<newline>'', ''---\<newline>'', ''b\<newline>''])"
  using parse_frontmatter_absent [of "[''# Title\<newline>'', ''---\<newline>'', ''text\<newline>'']"]
    parse_frontmatter_absent [of "[''---\<newline>'', ''title: x\<newline>'', ''text\<newline>'']"]
    parse_frontmatter_absent
      [of "[[CHR 0xC2, CHR 0xA0] @ ''---\<newline>'', ''a\<newline>'', ''---\<newline>'', ''b\<newline>'']"]
  by (simp add: startswith_def strip_def lstrip_def rstrip_def whitespace_def)

text \<open>
  Claim C5 as stated fails: in this document no line, stripped, is exactly \<open>---\<close>, and
  the first three lines are still taken as frontmatter.
\<close>

theorem parse_frontmatter_exact_delimiter_counterexample:
  "strip ''----\<newline>'' \<noteq> ''---'' \<and> strip ''title: x\<newline>'' \<noteq> ''---'' \<and>
   strip ''body\<newline>'' \<noteq> ''---'' \<and>
   parse_frontmatter [''----\<newline>'', ''title: x\<newline>'', ''----\<newline>'', ''body\<newline>''] =
     ([''----\<newline>'', ''title: x\<newline>'', ''----\<newline>''], [''body\<newline>'']) \<and>
   parse_frontmatter [''----\<newline>'', ''title: x\<newline>'', ''----\<newline>'', ''body\<newline>''] \<noteq>
     ([], [''----\<newline>'', ''title: x\<newline>'', ''----\<newline>'', ''body\<newline>''])"
  by (simp add: parse_frontmatter_def startswith_def strip_def lstrip_def rstrip_def whitespace_def)

lemma those_map_Some:
  "\<forall>x \<in> set xs. f x = Some (g x) \<Longrightarrow> those (map f xs) = Some (map g xs)"
  by (induction xs) auto

lemma reorder_columns_in_range:
  assumes "\<forall>i \<in> set order. 0 \<le> i \<and> i < int (length columns)"
  shows "reorder_columns columns order = Inr (map (\<lambda>i. columns ! nat i) order)"
proof -
  have "\<forall>i \<in> set order. py_index columns i = Some (columns ! nat i)"
    using assms by (auto simp: py_index_def Let_def)
  then have "those (map (py_index columns) order) = Some (map (\<lambda>i. columns ! nat i) order)"
    by (rule those_map_Some)
  then show ?thesis by (simp add: reorder_columns_def)
qed

lemma permutation_range:
  assumes "mset order = mset (map int [0..<n])"
  shows "set order = int ` {0..<n}" and "length order = n"
proof -
  have "set order = set (map int [0..<n])" using assms by (rule mset_eq_setD)
  then show "set order = int ` {0..<n}" by simp
  have "length order = length (map int [0..<n])" using assms by (rule mset_eq_length)
  then show "length order = n" by simp
qed

text \<open>
  Claim C8. For a permutation \<open>order\<close> of \<open>0..n-1\<close>, a row of \<open>n\<close> cells and the inverse
  permutation (the list that sends \<open>order[j]\<close> back to \<open>j\<close>), reordering by \<open>order\<close> and then by
  the inverse gives the row back; \<open>[2,0,1]\<close> followed by \<open>[1,2,0]\<close> restores three
  columns.
\<close>

theorem reorder_columns_round_trip:
  "(length columns = n \<and> mset order = mset (map int [0..<n]) \<and> length inv_order = n \<and>
    (\<forall>j < n. inv_order ! nat (order ! j) = int j) \<longrightarrow>
      (\<exists>reordered. reorder_columns columns order = Inr reordered \<and>
                    reorder_columns reordered inv_order = Inr columns)) \<and>
   reorder_columns [a, b, c] [2, 0, 1] = Inr [c, a, b] \<and>
   reorder_columns [c, a, b] [1, 2, 0] = Inr [a, b, c]"
proof (intro conjI impI)
  assume h: "length columns = n \<and> mset order = mset (map int [0..<n]) \<and> length inv_order = n \<and>
    (\<forall>j < n. inv_order ! nat (order ! j) = int j)"
  then have len: "length columns = n" and perm: "mset order = mset (map int [0..<n])"
    and leni: "length inv_order = n" and inv: "\<forall>j < n. inv_order ! nat (order ! j) = int j"
    by auto
  have set_order: "set order = int ` {0..<n}" and leno: "length order = n"
    using permutation_range [OF perm] by auto
  let ?r = "map (\<lambda>i. columns ! nat i) order"
  have r: "reorder_columns columns order = Inr ?r"
    using set_order len by (intro reorder_columns_in_range) auto
  have preimage: "\<exists>j < n. order ! j = int k \<and> inv_order ! k = int j" if "k < n" for k
  proof -
    have "int k \<in> set order" using that set_order by auto
    then obtain j where j: "j < length order" "order ! j = int k"
      by (auto simp: in_set_conv_nth)
    have jn: "j < n" using j(1) leno by simp
    then have "inv_order ! nat (order ! j) = int j" using inv by blast
    then have "inv_order ! k = int j" by (simp add: j(2))
    then show ?thesis using j(2) jn by blast
  qed
  have inv_range: "\<forall>i \<in> set inv_order. 0 \<le> i \<and> i < int (length ?r)"
  proof
    fix i assume "i \<in> set inv_order"
    then obtain k where k: "k < n" "inv_order ! k = i" using leni by (auto simp: in_set_conv_nth)
    then obtain j where "j < n" "inv_order ! k = int j" using preimage by blast
    then show "0 \<le> i \<and> i < int (length ?r)" using k leno by simp
  qed
  have "map (\<lambda>i. ?r ! nat i) inv_order = columns"
  proof (rule nth_equalityI)
    show "length (map (\<lambda>i. ?r ! nat i) inv_order) = length columns" using leni len by simp
  next
    fix k assume "k < length (map (\<lambda>i. ?r ! nat i) inv_order)"
    then have k: "k < n" using leni by simp
    then obtain j where j: "j < n" "order ! j = int k" "inv_order ! k = int j" using preimage by blast
    then show "map (\<lambda>i. ?r ! nat i) inv_order ! k = columns ! k"
      using k leni leno by simp
  qed
  then have "reorder_columns ?r inv_order = Inr columns"
    using reorder_columns_in_range [OF inv_range] by simp
  then show "\<exists>reordered. reorder_columns columns order = Inr reordered \<and>
                    reorder_columns reordered inv_order = Inr columns"
    using r by blast
next
  show "reorder_columns [a, b, c] [2, 0, 1] = Inr [c, a, b]"
    by (simp add: reorder_columns_def py_index_def)
next
  show "reorder_columns [c, a, b] [1, 2, 0] = Inr [a, b, c]"
    by (simp add: reorder_columns_def py_index_def)
qed

theorem reorder_columns_round_trip_witness:
  "\<exists>reordered. reorder_columns ['' Name '', '' date '', '' note '', '' id ''] [3, 0, 2, 1] = Inr reordered \<and>
      reorder_columns reordered [1, 3, 2, 0] = Inr ['' Name '', '' date '', '' note '', '' id '']"
proof -
  have "mset [3, 0, 2, 1 :: int] = mset (map int [0..<4])"
    by (simp add: upt_rec numeral_nat)
  moreover have "\<forall>j < 4. [1, 3, 2, 0 :: int] ! nat ([3, 0, 2, 1] ! j) = int j"
    by (simp add: All_less_Suc numeral_nat)
  ultimately show ?thesis
    using reorder_columns_round_trip
      [of "['' Name '', '' date '', '' note '', '' id '']" 4 "[3, 0, 2, 1]" "[1, 3, 2, 0]"]
    by simp
qed

lemma count_list_upto:
  "count_list (map int [0..<n]) x = (if 0 \<le> x \<and> x < int n then 1 else 0)"
  by (induction n) auto

lemma sorted_upto_int: "sorted (map int [0..<n])"
  by (induction n) (auto simp: sorted_append)

lemma sort_is_range_iff:
  "sort order = map int [0..<length order] \<longleftrightarrow>
     (\<forall>k < length order. count_list order (int k) = 1)"
proof
  assume a: "sort order = map int [0..<length order]"
  show "\<forall>k < length order. count_list order (int k) = 1"
  proof (intro allI impI)
    fix k assume k: "k < length order"
    have "count_list order (int k) = count (mset (sort order)) (int k)"
      by (simp add: count_mset)
    also have "\<dots> = count_list (map int [0..<length order]) (int k)"
      unfolding a by (simp only: count_mset)
    also have "\<dots> = 1" using k by (simp add: count_list_upto)
    finally show "count_list order (int k) = 1" .
  qed
next
  assume a: "\<forall>k < length order. count_list order (int k) = 1"
  let ?r = "map int [0..<length order]"
  have sub: "mset ?r \<subseteq># mset order"
  proof (rule mset_subset_eqI)
    fix x
    have c: "count (mset ?r) x = count_list ?r x" by (simp only: count_mset)
    show "count (mset ?r) x \<le> count (mset order) x"
    proof (cases "0 \<le> x \<and> x < int (length order)")
      case True
      then have "nat x < length order" by auto
      then have "count_list order (int (nat x)) = 1" using a by blast
      then have "count (mset order) x = 1" using True by (simp add: count_mset)
      then show ?thesis unfolding c by (simp add: count_list_upto)
    next
      case False
      then have "count_list ?r x = 0" by (auto simp: count_list_upto)
      then show ?thesis unfolding c by simp
    qed
  qed
  have "size (mset order) = size (mset ?r)" by (simp only: size_mset length_map length_upt)
  then have "size (mset order - mset ?r) = 0" using size_Diff_submset [OF sub] by simp
  then have "mset order - mset ?r = {#}" by (simp only: size_eq_0_iff_empty)
  moreover have "mset order - mset ?r + mset ?r = mset order"
    using sub by (rule subset_mset.diff_add)
  ultimately have "mset order = mset ?r" by (simp only: empty_neutral)
  then have "mset ?r = mset order" by (rule sym)
  then show "sort order = ?r" by (rule properties_for_sort) (rule sorted_upto_int)
qed

lemma parse_ints_iff: "parse_ints xs = Inr order \<longleftrightarrow> map py_int xs = map Some order"
proof (induction xs arbitrary: order)
  case Nil show ?case by auto
next
  case (Cons x xs)
  show ?case
  proof (cases "py_int x")
    case None then show ?thesis by (cases order) auto
  next
    case (Some i)
    show ?thesis
    proof (cases "parse_ints xs")
      case (Inl e)
      then have "\<And>r. map py_int xs \<noteq> map Some r" using Cons.IH by auto
      then show ?thesis using Some Inl by (cases order) auto
    next
      case (Inr r)
      then have "map py_int xs = map Some r" using Cons.IH by simp
      then show ?thesis using Some Inr by (cases order) (auto simp: map_eq_conv inj_map_eq_map)
    qed
  qed
qed

text \<open>
  Claim C9. \<open>parse_column_order\<close> returns the list \<open>ord\<close> exactly when \<open>int\<close> accepts every
  token of the string (split at commas and whitespace), \<open>ord\<close> is the list of their values,
  and every index below the number of tokens occurs exactly once in it. For every other
  string it raises a \<open>ValueError\<close>, and \<open>main\<close> then prints the error and returns 1
  whatever the file holds: the file is not read and nothing is written.
\<close>

theorem parse_column_order_permutation:
  "(parse_column_order s = Inr ord \<longleftrightarrow>
      map py_int (order_tokens s) = map Some ord \<and>
      (\<forall>k < length ord. count_list ord (int k) = 1)) \<and>
   ((\<nexists>ord. map py_int (order_tokens s) = map Some ord \<and>
            (\<forall>k < length ord. count_list ord (int k) = 1)) \<longrightarrow>
      (\<exists>e. parse_column_order s = Inl e \<and>
           (\<forall>int_message a file_read write_failure. arg_order a = s \<longrightarrow>
              reorder_main int_message a file_read write_failure =
                \<lparr>exit_code = 1, stdout = [], stderr = [''Error: '' @ str_error int_message e],
                 written = None\<rparr>)))"
proof -
  have ok: "parse_column_order s = Inr r \<longleftrightarrow>
      map py_int (order_tokens s) = map Some r \<and>
      (\<forall>k < length r. count_list r (int k) = 1)" for r
  proof (cases "parse_ints (order_tokens s)")
    case (Inl e)
    then have "map py_int (order_tokens s) \<noteq> map Some r"
      using parse_ints_iff [of "order_tokens s" r] by simp
    then show ?thesis using Inl by (simp add: parse_column_order_def)
  next
    case (Inr r')
    then have r': "map py_int (order_tokens s) = map Some r'"
      using parse_ints_iff [of "order_tokens s" r'] by simp
    have "map py_int (order_tokens s) = map Some r \<longleftrightarrow> r' = r"
      unfolding r' by (simp add: inj_map_eq_map)
    then show ?thesis
      using Inr sort_is_range_iff [of r'] by (auto simp: parse_column_order_def)
  qed
  show ?thesis
  proof (intro conjI impI)
    show "parse_column_order s = Inr ord \<longleftrightarrow>
      map py_int (order_tokens s) = map Some ord \<and>
      (\<forall>k < length ord. count_list ord (int k) = 1)" by (rule ok)
  next
    assume none: "\<nexists>ord. map py_int (order_tokens s) = map Some ord \<and>
            (\<forall>k < length ord. count_list ord (int k) = 1)"
    then have "\<And>r. parse_column_order s \<noteq> Inr r" using ok by blast
    then obtain e where e: "parse_column_order s = Inl e"
      by (cases "parse_column_order s") auto
    then have "\<forall>int_message a file_read write_failure. arg_order a = s \<longrightarrow>
              reorder_main int_message a file_read write_failure =
                \<lparr>exit_code = 1, stdout = [], stderr = [''Error: '' @ str_error int_message e],
                 written = None\<rparr>"
      by (simp add: reorder_main_def)
    then show "\<exists>e. parse_column_order s = Inl e \<and>
           (\<forall>int_message a file_read write_failure. arg_order a = s \<longrightarrow>
              reorder_main int_message a file_read write_failure =
                \<lparr>exit_code = 1, stdout = [], stderr = [''Error: '' @ str_error int_message e],
                 written = None\<rparr>)"
      using e by blast
  qed
qed

lemmas int_eval =
  order_tokens_def py_int_def whitespace_def startswith_def decode_char_def continuation_def
  low_bits_def decimal_def decimal_zeros_def ascii_space_def ascii_digit_def digits_value_def
  int_max_str_digits_def

lemma tokens_201: "map py_int (order_tokens ''2,0,1'') = [Some 2, Some 0, Some 1]"
  by (simp add: int_eval)

lemma tokens_00: "map py_int (order_tokens ''0,0'') = [Some 0, Some 0]"
  by (simp add: int_eval)

text \<open>
  The digits one and zero of U+FF11 and U+FF10, with the no-break space U+00A0 between
  them: \<open>split\<close> separates them and \<open>int\<close> reads them.
\<close>

lemma tokens_fullwidth:
  "map py_int (order_tokens [CHR 0xEF, CHR 0xBC, CHR 0x91, CHR 0xC2, CHR 0xA0,
                             CHR 0xEF, CHR 0xBC, CHR 0x90]) = [Some 1, Some 0]"
  by (simp add: int_eval)

lemma order_00:
  "parse_column_order ''0,0'' = Inl (Invalid_column_order_format Not_a_permutation)"
  using tokens_00 parse_ints_iff [of "order_tokens ''0,0''" "[0, 0]"]
  by (simp add: parse_column_order_def upt_rec)

theorem parse_column_order_permutation_witness:
  "parse_column_order ''2,0,1'' = Inr [2, 0, 1] \<and>
   parse_column_order [CHR 0xEF, CHR 0xBC, CHR 0x91, CHR 0xC2, CHR 0xA0,
                       CHR 0xEF, CHR 0xBC, CHR 0x90] = Inr [1, 0] \<and>
   reorder_main id
     \<lparr>arg_file = ''notes.md'', arg_order = ''0,0'', arg_output = None, arg_dry_run = False\<rparr>
     File_not_found None =
   \<lparr>exit_code = 1, stdout = [],
    stderr = [''Error: Invalid column order format: Column order must be a permutation of column indices starting from 0''],
    written = None\<rparr>"
proof -
  let ?fw = "[CHR 0xEF, CHR 0xBC, CHR 0x91, CHR 0xC2, CHR 0xA0, CHR 0xEF, CHR 0xBC, CHR 0x90]"
  have c1: "\<forall>k < length [2, 0, 1 :: int]. count_list [2, 0, 1] (int k) = 1"
    by (simp add: All_less_Suc)
  have c3: "\<forall>k < length [1, 0 :: int]. count_list [1, 0] (int k) = 1"
    by (simp add: All_less_Suc)
  have n2: "\<nexists>ord. map py_int (order_tokens ''0,0'') = map Some ord \<and>
            (\<forall>k < length ord. count_list ord (int k) = 1)"
  proof
    assume "\<exists>ord. map py_int (order_tokens ''0,0'') = map Some ord \<and>
            (\<forall>k < length ord. count_list ord (int k) = 1)"
    then obtain ord where o: "map py_int (order_tokens ''0,0'') = map Some ord"
      and c: "\<forall>k < length ord. count_list ord (int k) = 1"
      by blast
    from o have "map Some ord = [Some 0, Some 0]" using tokens_00 by simp
    then have "ord = [0, 0]" by (auto simp: map_eq_Cons_conv)
    then show False using c by (auto simp: All_less_Suc)
  qed
  have t1: "map py_int (order_tokens ''2,0,1'') = map Some [2, 0, 1]"
    using tokens_201 by simp
  have t3: "map py_int (order_tokens ?fw) = map Some [1, 0]"
    using tokens_fullwidth by simp
  have p1: "parse_column_order ''2,0,1'' = Inr [2, 0, 1]"
    using parse_column_order_permutation [of "''2,0,1''" "[2, 0, 1]", THEN conjunct1] t1 c1
    by blast
  have p3: "parse_column_order ?fw = Inr [1, 0]"
    using parse_column_order_permutation [of ?fw "[1, 0]", THEN conjunct1] t3 c3
    by blast
  obtain e where e: "parse_column_order ''0,0'' = Inl e"
    and m: "\<forall>int_message a file_read write_failure. arg_order a = ''0,0'' \<longrightarrow>
              reorder_main int_message a file_read write_failure =
                \<lparr>exit_code = 1, stdout = [], stderr = [''Error: '' @ str_error int_message e],
                 written = None\<rparr>"
    using parse_column_order_permutation [of "''0,0''" "[]", THEN conjunct2] n2 by blast
  have "e = Invalid_column_order_format Not_a_permutation" using e order_00 by simp
  then have "reorder_main id
     \<lparr>arg_file = ''notes.md'', arg_order = ''0,0'', arg_output = None, arg_dry_run = False\<rparr>
     File_not_found None =
   \<lparr>exit_code = 1, stdout = [],
    stderr = [''Error: Invalid column order format: Column order must be a permutation of column indices starting from 0''],
    written = None\<rparr>"
    using m by simp
  then show ?thesis using p1 p3 by blast
qed

lemma parse_column_order_range:
  assumes "parse_column_order s = Inr ord"
  shows "\<forall>i \<in> set ord. 0 \<le> i \<and> i < int (length ord)"
proof -
  have "sort ord = map int [0..<length ord]"
    using assms by (auto simp: parse_column_order_def split: sum.splits if_splits)
  then have "set (sort ord) = set (map int [0..<length ord])" by simp
  then have "set ord = int ` {0..<length ord}" by simp
  then show ?thesis by auto
qed

lemma reorder_rows_mismatch:
  assumes "\<forall>i \<in> set ord. 0 \<le> i \<and> i < int (length ord)"
    and "\<exists>l \<in> set ts. \<exists>c orig. parse_table_row l = Some (c, orig) \<and> length c \<noteq> length ord"
  shows "\<exists>l \<in> set ts. \<exists>c orig. parse_table_row l = Some (c, orig) \<and> length c \<noteq> length ord \<and>
           reorder_rows ts ord res = Inl (Column_count_mismatch (length c) (length ord))"
  using assms(2)
proof (induction ts arbitrary: res)
  case Nil then show ?case by simp
next
  case (Cons t ts)
  show ?case
  proof (cases "parse_table_row t")
    case None
    then have "\<exists>l \<in> set ts. \<exists>c orig. parse_table_row l = Some (c, orig) \<and> length c \<noteq> length ord"
      using Cons.prems by auto
    then show ?thesis using Cons.IH [of "res @ [t]"] None by auto
  next
    case (Some p)
    obtain c orig where p: "p = (c, orig)" by (cases p)
    show ?thesis
    proof (cases "length c = length ord")
      case False
      then show ?thesis using Some p by auto
    next
      case True
      then have "\<forall>i \<in> set ord. 0 \<le> i \<and> i < int (length c)" using assms(1) by simp
      then have r: "reorder_columns c ord = Inr (map (\<lambda>i. c ! nat i) ord)"
        by (rule reorder_columns_in_range)
      have "\<exists>l \<in> set ts. \<exists>c orig. parse_table_row l = Some (c, orig) \<and> length c \<noteq> length ord"
        using Cons.prems Some p True by auto
      then show ?thesis
        using Cons.IH [of "res @ [format_table_row (map (\<lambda>i. c ! nat i) ord) orig @ ''\<newline>'']"]
          Some p True r by auto
    qed
  qed
qed

lemma reorder_rows_ok:
  assumes "\<forall>i \<in> set ord. 0 \<le> i \<and> i < int (length ord)"
    and "\<forall>l \<in> set ts. \<forall>c orig. parse_table_row l = Some (c, orig) \<longrightarrow> length c = length ord"
  shows "\<exists>r. reorder_rows ts ord res = Inr r"
  using assms(2)
proof (induction ts arbitrary: res)
  case Nil then show ?case by simp
next
  case (Cons t ts)
  show ?case
  proof (cases "parse_table_row t")
    case None
    then show ?thesis using Cons.IH [of "res @ [t]"] Cons.prems by auto
  next
    case (Some p)
    obtain c orig where p: "p = (c, orig)" by (cases p)
    have len: "length c = length ord" using Cons.prems Some p by auto
    then have "\<forall>i \<in> set ord. 0 \<le> i \<and> i < int (length c)" using assms(1) by simp
    then have r: "reorder_columns c ord = Inr (map (\<lambda>i. c ! nat i) ord)"
      by (rule reorder_columns_in_range)
    show ?thesis
      using Cons.IH [of "res @ [format_table_row (map (\<lambda>i. c ! nat i) ord) orig @ ''\<newline>'']"]
        Cons.prems Some p len r by auto
  qed
qed

lemma find_tables_mismatch:
  assumes "\<forall>i \<in> set ord. 0 \<le> i \<and> i < int (length ord)"
  shows "\<exists>l \<in> set lines. \<exists>c orig. parse_table_row l = Some (c, orig) \<and> length c \<noteq> length ord \<Longrightarrow>
         \<exists>l \<in> set lines. \<exists>c orig. parse_table_row l = Some (c, orig) \<and> length c \<noteq> length ord \<and>
           find_tables lines ord res = Inl (Column_count_mismatch (length c) (length ord))"
proof (induction "length lines" arbitrary: lines res rule: less_induct)
  case less
  let ?bad = "\<lambda>l. \<exists>c orig. parse_table_row l = Some (c, orig) \<and> length c \<noteq> length ord"
  obtain line rest where lines: "lines = line # rest" using less.prems by (cases lines) auto
  show ?case
  proof (cases "is_row line")
    case False
    then have nb: "\<not> ?bad line" by (auto simp: is_row_def)
    then have "\<exists>l \<in> set rest. ?bad l" using less.prems lines by auto
    then have "\<exists>l \<in> set rest. \<exists>c orig. parse_table_row l = Some (c, orig) \<and>
        length c \<noteq> length ord \<and>
        find_tables rest ord (res @ [line]) = Inl (Column_count_mismatch (length c) (length ord))"
      using less.hyps [of rest "res @ [line]"] lines by simp
    then show ?thesis using False lines by auto
  next
    case True
    let ?tl = "takeWhile is_row (line # rest)"
    let ?dl = "dropWhile is_row (line # rest)"
    have tl_ne: "?tl \<noteq> []" using True by simp
    have split: "set (line # rest) = set ?tl \<union> set ?dl"
      by (metis set_append takeWhile_dropWhile_id)
    have step: "find_tables lines ord res =
        (case reorder_process_table ?tl ord of
           Inl e \<Rightarrow> Inl e
         | Inr processed_table \<Rightarrow> find_tables ?dl ord (res @ processed_table))"
      using True by (simp add: lines)
    have proc: "reorder_process_table ?tl ord = reorder_rows ?tl ord []"
      using tl_ne by (simp add: reorder_process_table_def)
    show ?thesis
    proof (cases "\<exists>l \<in> set ?tl. ?bad l")
      case b: True
      then have "\<exists>l \<in> set ?tl. \<exists>c orig. parse_table_row l = Some (c, orig) \<and>
          length c \<noteq> length ord \<and>
          reorder_rows ?tl ord [] = Inl (Column_count_mismatch (length c) (length ord))"
        by (rule reorder_rows_mismatch [OF assms])
      then obtain l c orig where l: "l \<in> set ?tl" "parse_table_row l = Some (c, orig)"
        "length c \<noteq> length ord"
        "reorder_rows ?tl ord [] = Inl (Column_count_mismatch (length c) (length ord))"
        by blast
      have "l \<in> set lines" using l(1) split lines by blast
      moreover have "find_tables lines ord res = Inl (Column_count_mismatch (length c) (length ord))"
        unfolding step proc l(4) by simp
      ultimately show ?thesis using l(2,3) by blast
    next
      case nb: False
      then have "\<forall>l \<in> set ?tl. \<forall>c orig. parse_table_row l = Some (c, orig) \<longrightarrow>
          length c = length ord" by blast
      then obtain r where r: "reorder_rows ?tl ord [] = Inr r"
        using reorder_rows_ok [OF assms] by blast
      have bad_dl: "\<exists>l \<in> set ?dl. ?bad l" using less.prems nb split lines by blast
      have "length ?dl \<le> length rest" using True by (simp add: length_dropWhile_le)
      then have shorter: "length ?dl < length lines" by (simp add: lines)
      have "\<exists>l \<in> set ?dl. \<exists>c orig. parse_table_row l = Some (c, orig) \<and>
          length c \<noteq> length ord \<and>
          find_tables ?dl ord (res @ r) = Inl (Column_count_mismatch (length c) (length ord))"
        using less.hyps [OF shorter bad_dl] .
      then obtain l c orig where l: "l \<in> set ?dl" "parse_table_row l = Some (c, orig)"
        "length c \<noteq> length ord"
        "find_tables ?dl ord (res @ r) = Inl (Column_count_mismatch (length c) (length ord))"
        by blast
      have "l \<in> set lines" using l(1) split lines by blast
      moreover have "find_tables lines ord res = Inl (Column_count_mismatch (length c) (length ord))"
        unfolding step proc r using l(4) by simp
      ultimately show ?thesis using l(2,3) by blast
    qed
  qed
qed

text \<open>
  Claim C1, as the code has it. \<open>main\<close> checks the rows of the body only: the lines that
  \<open>parse_frontmatter\<close> returns as content, after the frontmatter block. When the order
  string parses to \<open>ord\<close> and some line of the body is a table row whose number of cells
  differs from the length of \<open>ord\<close>, \<open>find_and_process_tables\<close> raises the \<open>ValueError\<close>
  of such a row, whose message names the row's cell count and the length of \<open>ord\<close>;
  \<open>main\<close> prints it to stderr, returns 1 and writes no file, with or without
  \<open>--dry-run\<close> and \<open>--output\<close>. The claim speaks of any table row in the document; a
  row inside the frontmatter block is copied as it is and never counted.
\<close>

theorem reorder_column_count_mismatch_aborts:
  assumes "parse_column_order (arg_order a) = Inr ord"
    and "parse_frontmatter lines = (frontmatter, content)"
    and "\<exists>line \<in> set content. \<exists>columns original.
           parse_table_row line = Some (columns, original) \<and> length columns \<noteq> length ord"
  shows "\<exists>line \<in> set content. \<exists>columns original.
           parse_table_row line = Some (columns, original) \<and> length columns \<noteq> length ord \<and>
           find_and_process_tables content ord =
             Inl (Column_count_mismatch (length columns) (length ord)) \<and>
           reorder_main int_message a (Read_ok lines) write_failure =
             \<lparr>exit_code = 1, stdout = [],
              stderr = [''Error processing table: Column count mismatch: table has '' @
                        str_nat (length columns) @ '' columns, but order specifies '' @
                        str_nat (length ord) @ '' columns''],
              written = None\<rparr>"
proof -
  have range: "\<forall>i \<in> set ord. 0 \<le> i \<and> i < int (length ord)"
    using assms(1) by (rule parse_column_order_range)
  obtain l c orig where l: "l \<in> set content" "parse_table_row l = Some (c, orig)"
    "length c \<noteq> length ord"
    "find_tables content ord [] = Inl (Column_count_mismatch (length c) (length ord))"
    using find_tables_mismatch [OF range assms(3), of "[]"] by blast
  have f: "find_and_process_tables content ord =
      Inl (Column_count_mismatch (length c) (length ord))"
    using l(4) by (simp add: find_and_process_tables_def)
  have "reorder_main int_message a (Read_ok lines) write_failure =
      \<lparr>exit_code = 1, stdout = [],
       stderr = [''Error processing table: Column count mismatch: table has '' @
                 str_nat (length c) @ '' columns, but order specifies '' @
                 str_nat (length ord) @ '' columns''],
       written = None\<rparr>"
    using assms(1,2) f by (simp add: reorder_main_def)
  then show ?thesis using l(1,2,3) f by blast
qed

lemma order_201: "parse_column_order ''2,0,1'' = Inr [2, 0, 1]"
  using tokens_201 parse_ints_iff [of "order_tokens ''2,0,1''" "[2, 0, 1]"]
  by (simp add: parse_column_order_def upt_rec)

lemma row_abc:
  "parse_table_row ''| a | b | c |\<newline>'' = Some (['' a '', '' b '', '' c ''], ''| a | b | c |'')"
  by (simp add: parse_table_row_def rstrip_chars_def strip_def lstrip_def rstrip_def whitespace_def
      startswith_def endswith_def Let_def)

lemma row_short:
  "parse_table_row ''| - | - |\<newline>'' = Some (['' - '', '' - ''], ''| - | - |'')"
  by (simp add: parse_table_row_def rstrip_chars_def strip_def lstrip_def rstrip_def whitespace_def
      startswith_def endswith_def Let_def)

lemma doc_frontmatter:
  "parse_frontmatter [''---\<newline>'', ''title: x\<newline>'', ''---\<newline>'', ''| a | b | c |\<newline>'', ''| - | - |\<newline>''] =
     ([''---\<newline>'', ''title: x\<newline>'', ''---\<newline>''], [''| a | b | c |\<newline>'', ''| - | - |\<newline>''])"
  by (simp add: parse_frontmatter_def startswith_def strip_def lstrip_def rstrip_def whitespace_def)

theorem reorder_column_count_mismatch_aborts_witness:
  "reorder_main id
     \<lparr>arg_file = ''daily.md'', arg_order = ''2,0,1'', arg_output = None, arg_dry_run = False\<rparr>
     (Read_ok [''---\<newline>'', ''title: x\<newline>'', ''---\<newline>'', ''| a | b | c |\<newline>'', ''| - | - |\<newline>'']) None =
   \<lparr>exit_code = 1, stdout = [],
    stderr = [''Error processing table: Column count mismatch: table has 2 columns, but order specifies 3 columns''],
    written = None\<rparr>"
proof -
  let ?a = "\<lparr>arg_file = ''daily.md'', arg_order = ''2,0,1'', arg_output = None,
             arg_dry_run = False\<rparr>"
  let ?content = "[''| a | b | c |\<newline>'', ''| - | - |\<newline>'']"
  have o: "parse_column_order (arg_order ?a) = Inr [2, 0, 1]" using order_201 by simp
  have bad: "\<exists>line \<in> set ?content. \<exists>columns original.
      parse_table_row line = Some (columns, original) \<and> length columns \<noteq> length [2, 0, 1 :: int]"
    using row_short by simp
  obtain line columns original where l: "line \<in> set ?content"
    "parse_table_row line = Some (columns, original)" "length columns \<noteq> length [2, 0, 1 :: int]"
    "reorder_main id ?a (Read_ok [''---\<newline>'', ''title: x\<newline>'', ''---\<newline>'', ''| a | b | c |\<newline>'', ''| - | - |\<newline>'']) None =
             \<lparr>exit_code = 1, stdout = [],
              stderr = [''Error processing table: Column count mismatch: table has '' @
                        str_nat (length columns) @ '' columns, but order specifies '' @
                        str_nat (length [2, 0, 1 :: int]) @ '' columns''],
              written = None\<rparr>"
    using reorder_column_count_mismatch_aborts [OF o doc_frontmatter bad, of id None]
    by blast
  have "length columns = 2" using l(1,2,3) row_abc row_short by auto
  then show ?thesis using l(4) by (simp add: str_nat.simps digit_char_def)
qed

lemma tokens_10: "map py_int (order_tokens ''1,0'') = [Some 1, Some 0]"
  by (simp add: int_eval)

lemma order_10: "parse_column_order ''1,0'' = Inr [1, 0]"
  using tokens_10 parse_ints_iff [of "order_tokens ''1,0''" "[1, 0]"]
  by (simp add: parse_column_order_def upt_rec)

lemma row_12:
  "parse_table_row ''| 1 | 2 |\<newline>'' = Some (['' 1 '', '' 2 ''], ''| 1 | 2 |'')"
  by (simp add: parse_table_row_def rstrip_chars_def strip_def lstrip_def rstrip_def whitespace_def
      startswith_def endswith_def Let_def)

lemma doc_row_in_frontmatter:
  "parse_frontmatter [''---\<newline>'', ''| a | b | c |\<newline>'', ''---\<newline>'', ''| 1 | 2 |\<newline>''] =
     ([''---\<newline>'', ''| a | b | c |\<newline>'', ''---\<newline>''], [''| 1 | 2 |\<newline>''])"
  by (simp add: parse_frontmatter_def startswith_def strip_def lstrip_def rstrip_def whitespace_def)

lemma tables_12:
  "find_and_process_tables [''| 1 | 2 |\<newline>''] [1, 0] = Inr [''| 2 | 1 |\<newline>'']"
  by (simp add: find_and_process_tables_def is_row_def row_12 reorder_process_table_def
      reorder_columns_def py_index_def format_table_row_def)

text \<open>
  Claim C1 as stated fails. The second line of this document is a table row of three
  cells and the order has two indices, yet the run succeeds and rewrites the file: the
  row lies in the frontmatter block.
\<close>

theorem reorder_frontmatter_row_unchecked_counterexample:
  "parse_column_order ''1,0'' = Inr [1, 0] \<and>
   parse_table_row ''| a | b | c |\<newline>'' = Some (['' a '', '' b '', '' c ''], ''| a | b | c |'') \<and>
   reorder_main id
     \<lparr>arg_file = ''daily.md'', arg_order = ''1,0'', arg_output = None, arg_dry_run = False\<rparr>
     (Read_ok [''---\<newline>'', ''| a | b | c |\<newline>'', ''---\<newline>'', ''| 1 | 2 |\<newline>'']) None =
   \<lparr>exit_code = 0, stdout = [''Successfully reordered columns in daily.md''], stderr = [],
    written = Some (''daily.md'',
                    [''---\<newline>'', ''| a | b | c |\<newline>'', ''---\<newline>'', ''| 2 | 1 |\<newline>''])\<rparr>"
  by (simp add: order_10 row_abc reorder_main_def doc_row_in_frontmatter tables_12 Let_def)
section \<open>Split by year (split\_by\_year.py)\<close>





end
